theory Spec2Isabelle
  imports Main "HOL-Library.Word"
begin

unbundle bit_operations_syntax

section \<open>Life-Boy: the data of \<^verbatim>\<open>main.c\<close>\<close>

text \<open>
  The program is one C file for the Game Boy. Its variables are the locals of \<^verbatim>\<open>main\<close>:
  three arrays indexed \<^verbatim>\<open>[WIDTH][HEIGHT]\<close>, the cursor, the mode flag and the two joypad
  samples; the battery-backed cartridge RAM at \<^verbatim>\<open>0xa000\<close> holds the save.

  Arrays are functions from the two indices; a pointer into an array is the pair of
  indices of the element it points to, so \<^verbatim>\<open>&world[i][j]\<close> and \<^verbatim>\<open>&cell_states[i][j]\<close>
  are both \<open>(i, j)\<close>, each read against its own array. The calls into the display
  hardware (\<^verbatim>\<open>set_tile_xy\<close>, \<^verbatim>\<open>set_bkg_tiles\<close>, \<^verbatim>\<open>move_sprite\<close>, \<^verbatim>\<open>SHOW_SPRITES\<close>, ...) write no
  program variable and are left out.
\<close>

type_synonym uint8_t = "8 word"
type_synonym int8_t = "8 word" \<comment> \<open>read through \<open>sint\<close>\<close>

definition WIDTH :: nat where "WIDTH = 20"
definition HEIGHT :: nat where "HEIGHT = 18"

text \<open>
  Save data locations, as offsets into the cartridge RAM bank that starts at \<^verbatim>\<open>0xa000\<close>:
  \<^verbatim>\<open>SAVED\<close> is \<^verbatim>\<open>0xa000\<close> and \<^verbatim>\<open>SAVED_STATES\<close> is \<^verbatim>\<open>0xa001\<close>.
\<close>

definition SAVED :: nat where "SAVED = 0"
definition SAVED_STATES :: nat where "SAVED_STATES = 1"

text \<open>The character constants \<^verbatim>\<open>'s'\<close>, \<^verbatim>\<open>'L'\<close> and \<^verbatim>\<open>'D'\<close>.\<close>

definition CHR_s :: "8 word" where "CHR_s = 0x73"
definition CHR_L :: "8 word" where "CHR_L = 0x4C"
definition CHR_D :: "8 word" where "CHR_D = 0x44"

text \<open>
  \<^verbatim>\<open>struct Cell { bool *state; struct Cell* neighbors[8]; }\<close>: \<open>state\<close> points into
  \<^verbatim>\<open>cell_states\<close>, the entries of \<open>neighbors\<close> point into \<^verbatim>\<open>world\<close>.
\<close>

record Cell =
  state :: "nat \<times> nat"
  neighbors :: "(nat \<times> nat) list"

text \<open>
  \<^verbatim>\<open>struct Cursor { uint8_t sprite; uint8_t x; uint8_t y; }\<close>. The fields \<^verbatim>\<open>x\<close> and \<^verbatim>\<open>y\<close>
  are named \<open>cur_x\<close> and \<open>cur_y\<close> here.
\<close>

record Cursor =
  sprite :: uint8_t
  cur_x :: uint8_t
  cur_y :: uint8_t

text \<open>
  The variables of \<^verbatim>\<open>main\<close>. The array \<^verbatim>\<open>uint8_t neighbors[WIDTH][HEIGHT]\<close> is the field
  \<open>neighbors_buf\<close> (the name \<open>neighbors\<close> is the field of \<open>Cell\<close>). \<^verbatim>\<open>cell_states\<close> is
  declared \<^verbatim>\<open>uint8_t\<close> but only ever holds \<^verbatim>\<open>true\<close> or \<^verbatim>\<open>false\<close> and is only ever tested
  for truth, so its entries are booleans. \<open>sram a\<close> is the byte at \<^verbatim>\<open>0xa000 + a\<close>.
\<close>

record machine =
  world :: "nat \<Rightarrow> nat \<Rightarrow> Cell"
  neighbors_buf :: "nat \<Rightarrow> nat \<Rightarrow> uint8_t"
  cell_states :: "nat \<Rightarrow> nat \<Rightarrow> bool"
  cursor :: Cursor
  running :: bool
  joypadPrev :: uint8_t
  joypadCurr :: uint8_t
  sram :: "nat \<Rightarrow> 8 word"

text \<open>Writing one element of a two-dimensional array.\<close>

definition upd2 :: "(nat \<Rightarrow> nat \<Rightarrow> 'a) \<Rightarrow> nat \<Rightarrow> nat \<Rightarrow> 'a \<Rightarrow> (nat \<Rightarrow> nat \<Rightarrow> 'a)" where
  "upd2 f i j v = f(i := (f i)(j := v))"

text \<open>Reading and writing a cell's state through its \<^verbatim>\<open>bool *state\<close> pointer.\<close>

definition read_state :: "machine \<Rightarrow> Cell \<Rightarrow> bool" where
  "read_state m c = cell_states m (fst (state c)) (snd (state c))"

definition write_state :: "machine \<Rightarrow> Cell \<Rightarrow> bool \<Rightarrow> machine" where
  "write_state m c v =
     m\<lparr>cell_states := upd2 (cell_states m) (fst (state c)) (snd (state c)) v\<rparr>"

text \<open>Dereferencing a \<^verbatim>\<open>Cell *\<close>.\<close>

definition cell_at :: "machine \<Rightarrow> nat \<times> nat \<Rightarrow> Cell" where
  "cell_at m p = world m (fst p) (snd p)"

section \<open>The functions\<close>

text \<open>
  \<^verbatim>\<open>cell_neighbors\<close>: the loop over \<^verbatim>\<open>i = 0 .. 7\<close> adds 1 to the \<^verbatim>\<open>uint8_t\<close> counter for
  every neighbour whose state is true.
\<close>

definition cell_neighbors :: "machine \<Rightarrow> Cell \<Rightarrow> uint8_t" where
  "cell_neighbors m c =
     fold (\<lambda>i n. n + (if read_state m (cell_at m (neighbors c ! i)) then 1 else 0))
       [0..<8] 0"

text \<open>
  \<^verbatim>\<open>move_cursor\<close>. In \<^verbatim>\<open>cursor->y + dy < HEIGHT\<close> both operands are promoted to \<^verbatim>\<open>int\<close>
  (\<^verbatim>\<open>uint8_t\<close> through \<open>uint\<close>, \<^verbatim>\<open>int8_t\<close> through \<open>sint\<close>), so the sum is the mathematical
  one; the value of the conditional expression is an \<^verbatim>\<open>int\<close> too and the assignment to
  the \<^verbatim>\<open>uint8_t\<close> field reduces it modulo 256 (\<open>word_of_int\<close>).
\<close>

definition move_cursor :: "Cursor \<Rightarrow> int8_t \<Rightarrow> int8_t \<Rightarrow> Cursor" where
  "move_cursor c dx dy =
     (let c = (if sint dy = -1 then
                 c\<lparr>cur_y := word_of_int
                    (if uint (cur_y c) + sint dy < int HEIGHT
                     then uint (cur_y c) + sint dy else int HEIGHT + sint dy)\<rparr>
               else if sint dy = 1 then
                 c\<lparr>cur_y := word_of_int
                    (if uint (cur_y c) + sint dy < int HEIGHT
                     then uint (cur_y c) + sint dy else 0)\<rparr>
               else c);
          c = (if sint dx = -1 then
                 c\<lparr>cur_x := word_of_int
                    (if uint (cur_x c) + sint dx < int WIDTH
                     then uint (cur_x c) + sint dx else int WIDTH + sint dx)\<rparr>
               else if sint dx = 1 then
                 c\<lparr>cur_x := word_of_int
                    (if uint (cur_x c) + sint dx < int WIDTH
                     then uint (cur_x c) + sint dx else 0)\<rparr>
               else c)
      in c)"

subsection \<open>Startup: lines 80 to 144 of \<^verbatim>\<open>main\<close>\<close>

text \<open>
  The body of the two inner loops over \<^verbatim>\<open>dx\<close> and \<^verbatim>\<open>dy\<close>: the cell that
  \<^verbatim>\<open>&world[i][j]\<close> points to. \<^verbatim>\<open>x\<close>, \<^verbatim>\<open>y\<close>, \<^verbatim>\<open>dx\<close>, \<^verbatim>\<open>dy\<close>, \<^verbatim>\<open>i\<close> and \<^verbatim>\<open>j\<close> are \<^verbatim>\<open>int8_t\<close>
  with values between -1 and 20, so no conversion changes a value and they are
  integers here.
\<close>

definition neighbor_ptr :: "int \<Rightarrow> int \<Rightarrow> int \<Rightarrow> int \<Rightarrow> nat \<times> nat" where
  "neighbor_ptr x y dx dy =
     (let i = x + dx;
          j = y + dy;
          i = (if x + dx = -1 then int WIDTH - 1
               else if x + dx = int WIDTH then 0 else i);
          j = (if y + dy = -1 then int HEIGHT - 1
               else if y + dy = int HEIGHT then 0 else j)
      in (nat i, nat j))"

text \<open>
  The loops \<^verbatim>\<open>for dx = -1 .. 1\<close>, \<^verbatim>\<open>for dy = -1 .. 1\<close>: every pass with
  \<^verbatim>\<open>dx != 0 || dy != 0\<close> stores into \<^verbatim>\<open>neighbors[n++]\<close>, from \<^verbatim>\<open>n = 0\<close>.
\<close>

definition wire_neighbors :: "int \<Rightarrow> int \<Rightarrow> (nat \<times> nat) list" where
  "wire_neighbors x y =
     fold (\<lambda>dx. fold (\<lambda>dy ns. if dx \<noteq> 0 \<or> dy \<noteq> 0
                               then ns @ [neighbor_ptr x y dx dy] else ns) [-1, 0, 1])
       [-1, 0, 1] []"

text \<open>
  One pass of the body of the loops over \<^verbatim>\<open>x\<close> and \<^verbatim>\<open>y\<close>; the second component is the
  read pointer \<^verbatim>\<open>s\<close> into the save, which moves only when a save is being loaded.
\<close>

definition init_cell :: "bool \<Rightarrow> nat \<Rightarrow> nat \<Rightarrow> machine \<times> nat \<Rightarrow> machine \<times> nat" where
  "init_cell load_saved x y = (\<lambda>(m, s).
     (let m = m\<lparr>world := upd2 (world m) x y
                  ((world m x y)\<lparr>neighbors := wire_neighbors (int x) (int y)\<rparr>)\<rparr>;
          m = m\<lparr>world := upd2 (world m) x y ((world m x y)\<lparr>state := (x, y)\<rparr>)\<rparr>
      in if load_saved
         then (write_state m (world m x y) (sram m s = CHR_L), s + 1)
         else (write_state m (world m x y) False, s)))"

definition startup :: "machine \<Rightarrow> machine" where
  "startup m =
     (let saved = SAVED;
          load_saved = (sram m saved = CHR_s);
          s = SAVED_STATES;
          (m, s) = fold (\<lambda>x. fold (\<lambda>y. init_cell load_saved x y) [0..<HEIGHT])
                     [0..<WIDTH] (m, s);
          c = \<lparr>sprite = 0,
               cur_x = of_nat (WIDTH div 2 - 1),
               cur_y = of_nat (HEIGHT div 2 - 1)\<rparr>;
          c = move_cursor c 0 0
      in m\<lparr>cursor := c, running := False, joypadPrev := 0, joypadCurr := 0\<rparr>)"

subsection \<open>The generation pass: lines 211 to 227\<close>

definition count_cell :: "nat \<Rightarrow> nat \<Rightarrow> machine \<Rightarrow> machine" where
  "count_cell x y m =
     (let c = world m x y
      in m\<lparr>neighbors_buf := upd2 (neighbors_buf m) x y (cell_neighbors m c)\<rparr>)"

definition update_cell :: "nat \<Rightarrow> nat \<Rightarrow> machine \<Rightarrow> machine" where
  "update_cell x y m =
     (let n = neighbors_buf m x y
      in if read_state m (world m x y) \<and> n \<noteq> 2 \<and> n \<noteq> 3
         then write_state m (world m x y) False
         else if \<not> read_state m (world m x y) \<and> n = 3
         then write_state m (world m x y) True
         else m)"

definition generation :: "machine \<Rightarrow> machine" where
  "generation m =
     (let m = fold (\<lambda>x. fold (\<lambda>y. count_cell x y) [0..<HEIGHT]) [0..<WIDTH] m;
          m = fold (\<lambda>x. fold (\<lambda>y. update_cell x y) [0..<HEIGHT]) [0..<WIDTH] m
      in m)"

subsection \<open>The main loop: lines 146 to 231\<close>

text \<open>
  The buttons. The masks \<^verbatim>\<open>J_UP\<close>, ..., \<^verbatim>\<open>J_START\<close> come from the header \<^verbatim>\<open>gb/gb.h\<close> of the
  GBDK library, which is not part of the repository: the functions below take them as
  the parameter \<open>bits\<close>, one bit pattern per button.
\<close>

datatype button = J_UP | J_DOWN | J_LEFT | J_RIGHT | J_A | J_B | J_SELECT | J_START

text \<open>
  What one pass of the loop did: which button's block was entered, and whether the
  generation pass ran. This is a record for the proofs, not a variable of the program.
\<close>

datatype event = Action button | GenerationStep

text \<open>\<^verbatim>\<open>(joypadCurr & J_X) && !(joypadPrev & J_X)\<close>\<close>

definition newly_pressed :: "(button \<Rightarrow> uint8_t) \<Rightarrow> machine \<Rightarrow> button \<Rightarrow> bool" where
  "newly_pressed bits m b =
     (joypadCurr m AND bits b \<noteq> 0 \<and> \<not> (joypadPrev m AND bits b \<noteq> 0))"

text \<open>The block of \<^verbatim>\<open>SELECT\<close>: lines 163 to 166.\<close>

definition clear_cell :: "nat \<Rightarrow> nat \<Rightarrow> machine \<Rightarrow> machine" where
  "clear_cell x y m = m\<lparr>cell_states := upd2 (cell_states m) x y False\<rparr>"

definition clear_states :: "machine \<Rightarrow> machine" where
  "clear_states m = fold (\<lambda>x. fold (\<lambda>y. clear_cell x y) [0..<HEIGHT]) [0..<WIDTH] m"

text \<open>
  The block of \<^verbatim>\<open>START\<close>: lines 171 to 179. \<^verbatim>\<open>*s++ = cell_states[x][y] ? 'L' : 'D'\<close>
  writes through the pointer \<^verbatim>\<open>s\<close> and moves it on.
\<close>

definition save_cell :: "nat \<Rightarrow> nat \<Rightarrow> machine \<times> nat \<Rightarrow> machine \<times> nat" where
  "save_cell x y = (\<lambda>(m, s).
     (m\<lparr>sram := (sram m)(s := (if cell_states m x y then CHR_L else CHR_D))\<rparr>, s + 1))"

definition save_states :: "machine \<Rightarrow> machine" where
  "save_states m =
     (let m = m\<lparr>sram := (sram m)(SAVED := CHR_s)\<rparr>;
          s = SAVED_STATES;
          (m, s) = fold (\<lambda>x. fold (\<lambda>y. save_cell x y) [0..<HEIGHT]) [0..<WIDTH] (m, s)
      in m)"

text \<open>
  The block of \<^verbatim>\<open>A\<close>: lines 184 and 185. The code does not test the cursor against
  the dimensions, and the cursor can leave the grid (\<open>move_cursor\<close> above). The rows of
  the array lie one after the other, so \<^verbatim>\<open>&world[cursor.x][cursor.y]\<close> is the element
  \<open>cursor.x * HEIGHT + cursor.y\<close> places from the start, which is \<^verbatim>\<open>world[k / HEIGHT][k % HEIGHT]\<close>
  for that number \<open>k\<close>: with the cursor at \<open>(0, 255)\<close> it is the cell \<open>(14, 3)\<close>, and on
  the grid it is the cell under the cursor. Past the last row the block reads what the
  machine holds in \<open>world\<close> outside the grid, which nothing ever writes. Every other
  access to an array in the program has both indices in range.
\<close>

definition toggle_cell :: "machine \<Rightarrow> machine" where
  "toggle_cell m =
     (let k = unat (cur_x (cursor m)) * HEIGHT + unat (cur_y (cursor m));
          c = world m (k div HEIGHT) (k mod HEIGHT)
      in write_state m c (\<not> read_state m c))"

text \<open>
  One \<^verbatim>\<open>if (newly pressed) { block }\<close> of the paused branch, run on the outcome of the
  blocks before it.
\<close>

definition on_press ::
  "(button \<Rightarrow> uint8_t) \<Rightarrow> button \<Rightarrow> (machine \<Rightarrow> machine) \<Rightarrow>
   machine \<times> event list \<Rightarrow> machine \<times> event list" where
  "on_press bits b block = (\<lambda>(m, evs).
     if newly_pressed bits m b then (block m, evs @ [Action b]) else (m, evs))"

text \<open>
  One pass of the body of \<^verbatim>\<open>while(1)\<close>, with the value \<^verbatim>\<open>joypad()\<close> returns as the
  argument \<open>pad\<close>. \<^verbatim>\<open>continue\<close> ends the pass.
\<close>

definition tick ::
  "(button \<Rightarrow> uint8_t) \<Rightarrow> machine \<Rightarrow> uint8_t \<Rightarrow> machine \<times> event list" where
  "tick bits m pad =
     (let m = m\<lparr>joypadPrev := joypadCurr m\<rparr>;
          m = m\<lparr>joypadCurr := pad\<rparr>
      in if \<not> running m then
           if newly_pressed bits m J_B
           then (m\<lparr>running := \<not> running m\<rparr>, [Action J_B])
           else
             (let r = (m, []);
                  r = on_press bits J_SELECT clear_states r;
                  r = on_press bits J_START save_states r;
                  r = on_press bits J_A toggle_cell r;
                  r = on_press bits J_UP
                        (\<lambda>m. m\<lparr>cursor := move_cursor (cursor m) 0 (- 1)\<rparr>) r;
                  r = on_press bits J_DOWN
                        (\<lambda>m. m\<lparr>cursor := move_cursor (cursor m) 0 1\<rparr>) r;
                  r = on_press bits J_LEFT
                        (\<lambda>m. m\<lparr>cursor := move_cursor (cursor m) (- 1) 0\<rparr>) r;
                  r = on_press bits J_RIGHT
                        (\<lambda>m. m\<lparr>cursor := move_cursor (cursor m) 1 0\<rparr>) r
              in r)
         else
           if newly_pressed bits m J_B
           then (m\<lparr>running := \<not> running m\<rparr>, [Action J_B])
           else (generation m, [GenerationStep]))"

text \<open>
  The loop over a finite sequence of joypad samples, one per pass; the result is the
  machine after the last pass and the events of every pass in turn.
\<close>

fun run ::
  "(button \<Rightarrow> uint8_t) \<Rightarrow> machine \<Rightarrow> uint8_t list \<Rightarrow> machine \<times> event list list"
where
  "run bits m [] = (m, [])"
| "run bits m (pad # pads) =
     (let (m', ev) = tick bits m pad;
          (m'', evs) = run bits m' pads
      in (m'', ev # evs))"

section \<open>The notions the properties are stated with\<close>

text \<open>
  These are not taken from the code: they are the rule of the Game of Life on a torus as
  the design document words it, against which the code is compared. The eight offsets
  \<open>(dx, dy)\<close> in \<open>{-1, 0, 1}\<close> squared without \<open>(0, 0)\<close>:
\<close>

definition spec_offsets :: "(int \<times> int) list" where
  "spec_offsets = [(-1, -1), (-1, 0), (-1, 1), (0, -1), (0, 1), (1, -1), (1, 0), (1, 1)]"

text \<open>The cell at \<open>((x + dx) mod WIDTH, (y + dy) mod HEIGHT)\<close>.\<close>

definition spec_neighbor :: "nat \<Rightarrow> nat \<Rightarrow> int \<times> int \<Rightarrow> nat \<times> nat" where
  "spec_neighbor x y d =
     (nat ((int x + fst d) mod int WIDTH), nat ((int y + snd d) mod int HEIGHT))"

text \<open>The number of the eight toroidal neighbours of \<open>(x, y)\<close> that are live in \<open>cs\<close>.\<close>

definition spec_live_neighbors :: "(nat \<Rightarrow> nat \<Rightarrow> bool) \<Rightarrow> nat \<Rightarrow> nat \<Rightarrow> nat" where
  "spec_live_neighbors cs x y =
     length (filter (\<lambda>d. cs (fst (spec_neighbor x y d)) (snd (spec_neighbor x y d)))
               spec_offsets)"

text \<open>
  The rule: a live cell with a count other than 2 and 3 dies, a dead cell with count 3
  is born, every other cell keeps its state.
\<close>

definition spec_rule :: "bool \<Rightarrow> nat \<Rightarrow> bool" where
  "spec_rule live n =
     (if live \<and> n \<noteq> 2 \<and> n \<noteq> 3 then False
      else if \<not> live \<and> n = 3 then True
      else live)"

text \<open>The simultaneous update of every cell from one and the same generation.\<close>

definition spec_next_generation :: "(nat \<Rightarrow> nat \<Rightarrow> bool) \<Rightarrow> nat \<Rightarrow> nat \<Rightarrow> bool" where
  "spec_next_generation cs x y = spec_rule (cs x y) (spec_live_neighbors cs x y)"

text \<open>
  The topology that startup builds and nothing changes afterwards: every cell of the
  grid points to its own state and to the eight cells the wiring loop computes.
\<close>

definition wired :: "machine \<Rightarrow> bool" where
  "wired m = (\<forall>x<WIDTH. \<forall>y<HEIGHT.
     state (world m x y) = (x, y) \<and>
     neighbors (world m x y) = wire_neighbors (int x) (int y))"

text \<open>
  What the initialisation loop has done after the cells \<open>ps\<close>, from the machine \<open>m\<close> and
  the read pointer \<open>s\<close>: the pointer has moved once per cell when a save is loaded, the
  cells of \<open>ps\<close> are wired, and when a save is loaded the \<open>k\<close>-th of them holds what
  the byte at \<open>s + k\<close> says.
\<close>

definition init_inv ::
  "bool \<Rightarrow> (nat \<times> nat) list \<Rightarrow> machine \<Rightarrow> nat \<Rightarrow> machine \<times> nat \<Rightarrow> bool" where
  "init_inv ls ps m s r =
     (snd r = (if ls then s + length ps else s) \<and>
      sram (fst r) = sram m \<and>
      (\<forall>a b. world (fst r) a b =
         (if (a, b) \<in> set ps
          then \<lparr>state = (a, b), neighbors = wire_neighbors (int a) (int b)\<rparr>
          else world m a b)) \<and>
      (\<forall>a b. (a, b) \<notin> set ps \<longrightarrow> cell_states (fst r) a b = cell_states m a b) \<and>
      (\<forall>k<length ps. cell_states (fst r) (fst (ps ! k)) (snd (ps ! k))
         = (ls \<and> sram m (s + k) = CHR_L)))"

section \<open>Concrete machines\<close>

text \<open>
  The masks of \<^verbatim>\<open>gb/gb.h\<close> in GBDK, used where a property is run on concrete input.
\<close>

fun gbdk_bits :: "button \<Rightarrow> uint8_t" where
  "gbdk_bits J_RIGHT = 0x01"
| "gbdk_bits J_LEFT = 0x02"
| "gbdk_bits J_UP = 0x04"
| "gbdk_bits J_DOWN = 0x08"
| "gbdk_bits J_A = 0x10"
| "gbdk_bits J_B = 0x20"
| "gbdk_bits J_SELECT = 0x40"
| "gbdk_bits J_START = 0x80"

text \<open>
  A machine at power-on, before \<^verbatim>\<open>main\<close> has run: the arrays hold nothing useful and the
  cartridge RAM holds no save.
\<close>

definition cold :: machine where
  "cold = \<lparr>world = (\<lambda>i j. \<lparr>state = (0, 0), neighbors = []\<rparr>),
           neighbors_buf = (\<lambda>i j. 0),
           cell_states = (\<lambda>i j. False),
           cursor = \<lparr>sprite = 0, cur_x = 0, cur_y = 0\<rparr>,
           running = False,
           joypadPrev = 0,
           joypadCurr = 0,
           sram = (\<lambda>a. 0xFF)\<rparr>"

text \<open>The glider of the design document, at the origin; the full and the empty grid.\<close>

definition glider :: "nat \<Rightarrow> nat \<Rightarrow> bool" where
  "glider i j = ((i, j) \<in> set [(1, 0), (2, 1), (0, 2), (1, 2), (2, 2)])"

definition all_live :: "nat \<Rightarrow> nat \<Rightarrow> bool" where
  "all_live i j = True"

definition all_dead :: "nat \<Rightarrow> nat \<Rightarrow> bool" where
  "all_dead i j = False"

text \<open>
  Cartridge RAM with the marker of a save followed by bytes that no save of this
  program writes, except one \<^verbatim>\<open>'L'\<close> for the cell \<open>(1, 3)\<close>; and cartridge RAM
  without the marker in which every other byte is \<^verbatim>\<open>'L'\<close>.
\<close>

definition foreign_save :: "nat \<Rightarrow> 8 word" where
  "foreign_save a = (if a = 0 then CHR_s else if a = 22 then CHR_L else 0x2A)"

definition unmarked_save :: "nat \<Rightarrow> 8 word" where
  "unmarked_save a = (if a = 0 then 0x53 else CHR_L)"

text \<open>
  What the saving loop has done after the cells \<open>ps\<close>, from the machine \<open>m\<close> and the
  write pointer \<open>s\<close>: one byte per cell from \<open>s\<close> on, nothing else written.
\<close>

definition save_inv ::
  "(nat \<times> nat) list \<Rightarrow> machine \<Rightarrow> nat \<Rightarrow> machine \<times> nat \<Rightarrow> bool" where
  "save_inv ps m s r =
     (snd r = s + length ps \<and>
      world (fst r) = world m \<and>
      neighbors_buf (fst r) = neighbors_buf m \<and>
      cell_states (fst r) = cell_states m \<and>
      cursor (fst r) = cursor m \<and>
      running (fst r) = running m \<and>
      joypadPrev (fst r) = joypadPrev m \<and>
      joypadCurr (fst r) = joypadCurr m \<and>
      (\<forall>a. a < s \<longrightarrow> sram (fst r) a = sram m a) \<and>
      (\<forall>k<length ps. sram (fst r) (s + k)
         = (if cell_states m (fst (ps ! k)) (snd (ps ! k)) then CHR_L else CHR_D)))"

text \<open>
  The button \<open>b\<close> is down in the joypad sample \<open>pad\<close>.
\<close>

definition held :: "(button \<Rightarrow> uint8_t) \<Rightarrow> uint8_t \<Rightarrow> button \<Rightarrow> bool" where
  "held bits pad b = (pad AND bits b \<noteq> 0)"

text \<open>
  What every block of the paused branch leaves alone: the two joypad samples, the mode
  flag and the topology.
\<close>

definition keeps :: "machine \<Rightarrow> machine \<Rightarrow> bool" where
  "keeps m m' =
     (joypadPrev m' = joypadPrev m \<and> joypadCurr m' = joypadCurr m \<and>
      running m' = running m \<and> world m' = world m)"

text \<open>
  The events of one pass as a function of the mode, the last sample and the new one
  (\<open>tick_result\<close> below proves that these are the events of \<open>tick\<close>).
\<close>

definition tick_events :: "(button \<Rightarrow> uint8_t) \<Rightarrow> machine \<Rightarrow> uint8_t \<Rightarrow> event list" where
  "tick_events bits m pad =
     (let pressed = (\<lambda>b. held bits pad b \<and> \<not> held bits (joypadCurr m) b)
      in if pressed J_B then [Action J_B]
         else if running m then [GenerationStep]
         else map Action (filter pressed
                [J_SELECT, J_START, J_A, J_UP, J_DOWN, J_LEFT, J_RIGHT]))"

text \<open>The events of a run, pass by pass.\<close>

definition run_events ::
  "(button \<Rightarrow> uint8_t) \<Rightarrow> machine \<Rightarrow> uint8_t list \<Rightarrow> event list list" where
  "run_events bits m pads = snd (run bits m pads)"

section \<open>Properties\<close>

subsection \<open>Loops over the grid\<close>

lemma fold_product:
  "fold (\<lambda>x. fold (\<lambda>y. f x y) ys) xs m = fold (\<lambda>(x, y). f x y) (List.product xs ys) m"
proof (induction xs arbitrary: m)
  case Nil
  then show ?case by simp
next
  case (Cons a xs)
  have "fold (\<lambda>(x, y). f x y) (map (Pair a) ys) m = fold (f a) ys m"
    by (simp add: fold_map comp_def)
  then show ?case using Cons by simp
qed

lemma upd2_apply: "upd2 f i j v a b = (if a = i \<and> b = j then v else f a b)"
  by (simp add: upd2_def)

lemma count_cell_frame:
  "world (count_cell x y m) = world m"
  "cell_states (count_cell x y m) = cell_states m"
  "cursor (count_cell x y m) = cursor m"
  "running (count_cell x y m) = running m"
  "joypadPrev (count_cell x y m) = joypadPrev m"
  "joypadCurr (count_cell x y m) = joypadCurr m"
  "sram (count_cell x y m) = sram m"
  by (simp_all add: count_cell_def Let_def)

lemma update_cell_frame:
  "world (update_cell x y m) = world m"
  "neighbors_buf (update_cell x y m) = neighbors_buf m"
  "cursor (update_cell x y m) = cursor m"
  "running (update_cell x y m) = running m"
  "joypadPrev (update_cell x y m) = joypadPrev m"
  "joypadCurr (update_cell x y m) = joypadCurr m"
  "sram (update_cell x y m) = sram m"
  by (simp_all add: update_cell_def Let_def write_state_def)

lemma fold_frame:
  assumes "\<And>p m. g (f p m) = g m"
  shows "g (fold f ps m) = g m"
  using assms by (induction ps arbitrary: m) simp_all

subsection \<open>The generation pass\<close>

lemma cell_neighbors_cong:
  "world m' = world m \<Longrightarrow> cell_states m' = cell_states m \<Longrightarrow>
   cell_neighbors m' c = cell_neighbors m c"
  by (simp add: cell_neighbors_def read_state_def cell_at_def)

lemma count_pass_frame:
  "world (fold (\<lambda>(x, y). count_cell x y) ps m) = world m"
  "cell_states (fold (\<lambda>(x, y). count_cell x y) ps m) = cell_states m"
  "cursor (fold (\<lambda>(x, y). count_cell x y) ps m) = cursor m"
  "running (fold (\<lambda>(x, y). count_cell x y) ps m) = running m"
  "joypadPrev (fold (\<lambda>(x, y). count_cell x y) ps m) = joypadPrev m"
  "joypadCurr (fold (\<lambda>(x, y). count_cell x y) ps m) = joypadCurr m"
  "sram (fold (\<lambda>(x, y). count_cell x y) ps m) = sram m"
  by (rule fold_frame, simp add: count_cell_frame split: prod.split)+

lemma update_pass_frame:
  "world (fold (\<lambda>(x, y). update_cell x y) ps m) = world m"
  "neighbors_buf (fold (\<lambda>(x, y). update_cell x y) ps m) = neighbors_buf m"
  "cursor (fold (\<lambda>(x, y). update_cell x y) ps m) = cursor m"
  "running (fold (\<lambda>(x, y). update_cell x y) ps m) = running m"
  "joypadPrev (fold (\<lambda>(x, y). update_cell x y) ps m) = joypadPrev m"
  "joypadCurr (fold (\<lambda>(x, y). update_cell x y) ps m) = joypadCurr m"
  "sram (fold (\<lambda>(x, y). update_cell x y) ps m) = sram m"
  by (rule fold_frame, simp add: update_cell_frame split: prod.split)+

lemma count_pass_buf:
  "neighbors_buf (fold (\<lambda>(x, y). count_cell x y) ps m) a b =
     (if (a, b) \<in> set ps then cell_neighbors m (world m a b) else neighbors_buf m a b)"
proof (induction ps rule: rev_induct)
  case Nil
  then show ?case by simp
next
  case (snoc p ps)
  obtain x y where p: "p = (x, y)" by (cases p)
  let ?m = "fold (\<lambda>(x, y). count_cell x y) ps m"
  have w: "world ?m = world m" and c: "cell_states ?m = cell_states m"
    by (rule count_pass_frame)+
  have "neighbors_buf (count_cell x y ?m) a b =
          (if a = x \<and> b = y then cell_neighbors m (world m x y) else neighbors_buf ?m a b)"
    by (simp add: count_cell_def Let_def upd2_apply w cell_neighbors_cong [OF w c])
  then show ?case using snoc p by auto
qed

text \<open>The transition that \<open>update_cell\<close> applies, on the counter as the code holds it.\<close>

lemma update_cell_states:
  assumes "state (world m x y) = (x, y)"
  shows "cell_states (update_cell x y m) a b =
     (if a = x \<and> b = y
      then (if cell_states m x y \<and> neighbors_buf m x y \<noteq> 2 \<and> neighbors_buf m x y \<noteq> 3
            then False
            else if \<not> cell_states m x y \<and> neighbors_buf m x y = 3 then True
            else cell_states m x y)
      else cell_states m a b)"
  using assms by (simp add: update_cell_def Let_def read_state_def write_state_def upd2_apply)

lemma update_pass_states:
  assumes "\<forall>(x, y) \<in> set ps. state (world m x y) = (x, y)" and "distinct ps"
  shows "cell_states (fold (\<lambda>(x, y). update_cell x y) ps m) a b =
     (if (a, b) \<in> set ps
      then (if cell_states m a b \<and> neighbors_buf m a b \<noteq> 2 \<and> neighbors_buf m a b \<noteq> 3
            then False
            else if \<not> cell_states m a b \<and> neighbors_buf m a b = 3 then True
            else cell_states m a b)
      else cell_states m a b)"
  using assms
proof (induction ps arbitrary: a b rule: rev_induct)
  case Nil
  then show ?case by simp
next
  case (snoc p ps)
  obtain x y where p: "p = (x, y)" by (cases p)
  let ?m = "fold (\<lambda>(x, y). update_cell x y) ps m"
  have w: "world ?m = world m" and n: "neighbors_buf ?m = neighbors_buf m"
    by (rule update_pass_frame)+
  have st: "state (world ?m x y) = (x, y)"
    using snoc.prems p by (simp add: w)
  have notin: "(x, y) \<notin> set ps" using snoc.prems p by simp
  have ih: "cell_states ?m a b =
     (if (a, b) \<in> set ps
      then (if cell_states m a b \<and> neighbors_buf m a b \<noteq> 2 \<and> neighbors_buf m a b \<noteq> 3
            then False
            else if \<not> cell_states m a b \<and> neighbors_buf m a b = 3 then True
            else cell_states m a b)
      else cell_states m a b)" for a b
    using snoc.IH [of a b] snoc.prems by simp
  have here: "cell_states ?m x y = cell_states m x y"
    using ih [of x y] notin by simp
  show ?case
    using notin by (simp add: p update_cell_states [OF st] n here ih)
qed

lemma count_fold_filter:
  "fold (\<lambda>i n. n + (if P (xs ! i) then 1 else 0)) [0..<length xs] (0 :: 'a :: len word)
     = of_nat (length (filter P xs))"
proof (induction xs rule: rev_induct)
  case Nil
  then show ?case by simp
next
  case (snoc x xs)
  have "fold (\<lambda>i n. n + (if P ((xs @ [x]) ! i) then 1 else 0)) [0..<length xs] (0 :: 'a word)
      = fold (\<lambda>i n. n + (if P (xs ! i) then 1 else 0)) [0..<length xs] 0"
    by (rule fold_cong) (simp_all add: nth_append)
  then show ?case using snoc by simp
qed

lemma neighbor_ptr_mod:
  assumes "x < WIDTH" "y < HEIGHT" "dx \<in> {-1, 0, 1}" "dy \<in> {-1, 0, 1}"
  shows "neighbor_ptr (int x) (int y) dx dy = spec_neighbor x y (dx, dy)"
proof -
  have i: "(if int x + dx = -1 then int 20 - 1
            else if int x + dx = int 20 then 0 else int x + dx)
             = (int x + dx) mod int 20"
    using assms(1,3) by (auto simp: WIDTH_def)
  have j: "(if int y + dy = -1 then int 18 - 1
            else if int y + dy = int 18 then 0 else int y + dy)
             = (int y + dy) mod int 18"
    using assms(2,4) by (auto simp: HEIGHT_def)
  show ?thesis
    unfolding neighbor_ptr_def spec_neighbor_def Let_def WIDTH_def HEIGHT_def
    by (simp only: i j fst_conv snd_conv)
qed

lemma wire_neighbors_spec:
  assumes "x < WIDTH" "y < HEIGHT"
  shows "wire_neighbors (int x) (int y) = map (spec_neighbor x y) spec_offsets"
  by (simp add: wire_neighbors_def spec_offsets_def neighbor_ptr_mod [OF assms])

lemma spec_neighbor_in_range:
  "fst (spec_neighbor x y d) < WIDTH" "snd (spec_neighbor x y d) < HEIGHT"
  by (simp_all add: spec_neighbor_def WIDTH_def HEIGHT_def nat_less_iff)

lemma length_wire_neighbors: "length (wire_neighbors x y) = 8"
  by (simp add: wire_neighbors_def)

lemma cell_neighbors_wired:
  assumes "wired m" "x < WIDTH" "y < HEIGHT"
  shows "cell_neighbors m (world m x y) = of_nat (spec_live_neighbors (cell_states m) x y)"
proof -
  let ?ns = "neighbors (world m x y)"
  let ?P = "\<lambda>p. read_state m (cell_at m p)"
  have ns: "?ns = map (spec_neighbor x y) spec_offsets"
    using assms by (simp add: wired_def wire_neighbors_spec)
  then have len: "length ?ns = 8" by (simp add: spec_offsets_def)
  have "cell_neighbors m (world m x y) =
          fold (\<lambda>i n. n + (if ?P (?ns ! i) then 1 else 0)) [0..<length ?ns] 0"
    unfolding len by (simp add: cell_neighbors_def)
  also have "\<dots> = of_nat (length (filter ?P ?ns))"
    by (rule count_fold_filter)
  also have "length (filter ?P ?ns) =
      length (filter (\<lambda>d. ?P (spec_neighbor x y d)) spec_offsets)"
    by (simp add: ns filter_map comp_def)
  also have "(\<lambda>d. ?P (spec_neighbor x y d)) =
      (\<lambda>d. cell_states m (fst (spec_neighbor x y d)) (snd (spec_neighbor x y d)))"
  proof
    fix d
    have "state (world m (fst (spec_neighbor x y d)) (snd (spec_neighbor x y d)))
            = (fst (spec_neighbor x y d), snd (spec_neighbor x y d))"
      using assms(1) spec_neighbor_in_range by (simp add: wired_def)
    then show "?P (spec_neighbor x y d) =
        cell_states m (fst (spec_neighbor x y d)) (snd (spec_neighbor x y d))"
      by (simp add: read_state_def cell_at_def)
  qed
  finally show ?thesis by (simp add: spec_live_neighbors_def)
qed

lemma spec_live_neighbors_le: "spec_live_neighbors cs x y \<le> 8"
proof -
  have "spec_live_neighbors cs x y \<le> length spec_offsets"
    unfolding spec_live_neighbors_def by (rule length_filter_le)
  then show ?thesis by (simp add: spec_offsets_def)
qed

lemma of_nat_count_eq:
  assumes "n \<le> 8" "k \<le> 8"
  shows "((of_nat n :: 8 word) = of_nat k) = (n = k)"
proof -
  have "unat (of_nat n :: 8 word) = n" "unat (of_nat k :: 8 word) = k"
    using assms by (simp_all add: unat_of_nat)
  then show ?thesis by metis
qed

lemma generation_frame:
  "world (generation m) = world m"
  "cursor (generation m) = cursor m"
  "running (generation m) = running m"
  "joypadPrev (generation m) = joypadPrev m"
  "joypadCurr (generation m) = joypadCurr m"
  "sram (generation m) = sram m"
  by (simp_all add: generation_def Let_def fold_product count_pass_frame update_pass_frame)

lemma generation_buf:
  assumes "x < WIDTH" "y < HEIGHT"
  shows "neighbors_buf (generation m) x y = cell_neighbors m (world m x y)"
  using assms
  by (simp add: generation_def Let_def fold_product update_pass_frame count_pass_buf)

lemma generation_states:
  assumes "wired m" "x < WIDTH" "y < HEIGHT"
  shows "cell_states (generation m) x y =
           spec_rule (cell_states m x y) (spec_live_neighbors (cell_states m) x y)"
proof -
  let ?cells = "List.product [0..<WIDTH] [0..<HEIGHT]"
  let ?m1 = "fold (\<lambda>(x, y). count_cell x y) ?cells m"
  have g: "generation m = fold (\<lambda>(x, y). update_cell x y) ?cells ?m1"
    by (simp add: generation_def Let_def fold_product)
  have w: "\<forall>(x, y) \<in> set ?cells. state (world ?m1 x y) = (x, y)"
    using assms(1) by (auto simp: wired_def count_pass_frame)
  have d: "distinct ?cells" by (simp add: distinct_product)
  have inc: "(x, y) \<in> set ?cells" using assms by simp
  let ?n = "spec_live_neighbors (cell_states m) x y"
  have buf: "neighbors_buf ?m1 x y = of_nat ?n"
    using inc assms by (simp add: count_pass_buf cell_neighbors_wired del: set_product)
  have n2: "((of_nat ?n :: 8 word) = 2) = (?n = 2)"
    using of_nat_count_eq [of ?n 2] spec_live_neighbors_le [of "cell_states m" x y] by simp
  have n3: "((of_nat ?n :: 8 word) = 3) = (?n = 3)"
    using of_nat_count_eq [of ?n 3] spec_live_neighbors_le [of "cell_states m" x y] by simp
  show ?thesis
    unfolding g update_pass_states [OF w d]
    using inc by (simp add: buf n2 n3 count_pass_frame spec_rule_def del: set_product)
qed

subsection \<open>Startup\<close>

lemma Cell_rebuild:
  "(c :: Cell)\<lparr>neighbors := ns, state := p\<rparr> = \<lparr>state = p, neighbors = ns\<rparr>"
  by (cases c) simp

lemma init_cell_eq:
  "init_cell ls x y (m, s) =
     (m\<lparr>world := upd2 (world m) x y
             \<lparr>state = (x, y), neighbors = wire_neighbors (int x) (int y)\<rparr>,
        cell_states := upd2 (cell_states m) x y (ls \<and> sram m s = CHR_L)\<rparr>,
      if ls then s + 1 else s)"
  by (simp add: init_cell_def Let_def write_state_def upd2_def Cell_rebuild)

lemma init_pass:
  "distinct ps \<Longrightarrow> init_inv ls ps m s (fold (\<lambda>(x, y). init_cell ls x y) ps (m, s))"
proof (induction ps rule: rev_induct)
  case Nil
  then show ?case by (simp add: init_inv_def)
next
  case (snoc p ps)
  obtain x y where p: "p = (x, y)" by (cases p)
  obtain m' s' where r: "fold (\<lambda>(x, y). init_cell ls x y) ps (m, s) = (m', s')"
    by (cases "fold (\<lambda>(x, y). init_cell ls x y) ps (m, s)")
  have d: "distinct ps" and notin: "(x, y) \<notin> set ps"
    using snoc.prems p by simp_all
  have ih: "init_inv ls ps m s (m', s')"
    using snoc.IH [OF d] r by simp
  have s': "s' = (if ls then s + length ps else s)"
    and sr: "sram m' = sram m"
    and w: "\<And>a b. world m' a b =
         (if (a, b) \<in> set ps
          then \<lparr>state = (a, b), neighbors = wire_neighbors (int a) (int b)\<rparr>
          else world m a b)"
    and other: "\<And>a b. (a, b) \<notin> set ps \<Longrightarrow> cell_states m' a b = cell_states m a b"
    and loaded: "\<And>k. k < length ps \<Longrightarrow> cell_states m' (fst (ps ! k)) (snd (ps ! k))
         = (ls \<and> sram m (s + k) = CHR_L)"
    using ih by (simp_all add: init_inv_def)
  have step: "fold (\<lambda>(x, y). init_cell ls x y) (ps @ [p]) (m, s) = init_cell ls x y (m', s')"
    by (simp add: r p)
  have c5: "cell_states (fst (init_cell ls x y (m', s')))
              (fst ((ps @ [p]) ! k)) (snd ((ps @ [p]) ! k))
            = (ls \<and> sram m (s + k) = CHR_L)" if k: "k < length (ps @ [p])" for k
  proof (cases "k < length ps")
    case True
    then have "ps ! k \<in> set ps" by simp
    then have "ps ! k \<noteq> (x, y)" using notin by auto
    then have "\<not> (fst (ps ! k) = x \<and> snd (ps ! k) = y)" by (cases "ps ! k") auto
    then show ?thesis
      using loaded [OF True] True by (auto simp: init_cell_eq upd2_apply nth_append)
  next
    case False
    then have "k = length ps" using k by simp
    then show ?thesis
      by (simp add: init_cell_eq upd2_apply p s' sr)
  qed
  show ?case
    unfolding step init_inv_def
  proof (intro conjI allI impI)
    show "snd (init_cell ls x y (m', s')) = (if ls then s + length (ps @ [p]) else s)"
      by (simp add: init_cell_eq s')
    show "sram (fst (init_cell ls x y (m', s'))) = sram m"
      by (simp add: init_cell_eq sr)
    show "world (fst (init_cell ls x y (m', s'))) a b =
         (if (a, b) \<in> set (ps @ [p])
          then \<lparr>state = (a, b), neighbors = wire_neighbors (int a) (int b)\<rparr>
          else world m a b)" for a b
      by (auto simp: init_cell_eq upd2_apply p w)
    show "cell_states (fst (init_cell ls x y (m', s'))) a b = cell_states m a b"
      if "(a, b) \<notin> set (ps @ [p])" for a b
      using that other [of a b] by (auto simp: init_cell_eq upd2_apply p)
    show "cell_states (fst (init_cell ls x y (m', s')))
              (fst ((ps @ [p]) ! k)) (snd ((ps @ [p]) ! k))
            = (ls \<and> sram m (s + k) = CHR_L)" if "k < length (ps @ [p])" for k
      using c5 that by simp
  qed
qed

lemma nth_cells:
  assumes "x < WIDTH" "y < HEIGHT"
  shows "x * HEIGHT + y < length (List.product [0..<WIDTH] [0..<HEIGHT])"
    and "List.product [0..<WIDTH] [0..<HEIGHT] ! (x * HEIGHT + y) = (x, y)"
proof -
  have "x * 18 + y < 360"
    using assms by (simp add: WIDTH_def HEIGHT_def)
  then show "x * HEIGHT + y < length (List.product [0..<WIDTH] [0..<HEIGHT])"
    and "List.product [0..<WIDTH] [0..<HEIGHT] ! (x * HEIGHT + y) = (x, y)"
    using assms by (simp_all add: product_nth WIDTH_def HEIGHT_def)
qed

lemma startup_fold:
  "startup m =
     (fst (fold (\<lambda>(x, y). init_cell (sram m SAVED = CHR_s) x y)
              (List.product [0..<WIDTH] [0..<HEIGHT]) (m, SAVED_STATES)))
       \<lparr>cursor := move_cursor \<lparr>sprite = 0, cur_x = of_nat (WIDTH div 2 - 1),
                               cur_y = of_nat (HEIGHT div 2 - 1)\<rparr> 0 0,
         running := False, joypadPrev := 0, joypadCurr := 0\<rparr>"
  by (simp add: startup_def Let_def fold_product split: prod.split)

lemma startup_inv:
  "init_inv (sram m SAVED = CHR_s) (List.product [0..<WIDTH] [0..<HEIGHT]) m SAVED_STATES
     (fold (\<lambda>(x, y). init_cell (sram m SAVED = CHR_s) x y)
              (List.product [0..<WIDTH] [0..<HEIGHT]) (m, SAVED_STATES))"
  by (rule init_pass) (simp add: distinct_product)

lemma startup_world:
  assumes "x < WIDTH" "y < HEIGHT"
  shows "world (startup m) x y = \<lparr>state = (x, y), neighbors = wire_neighbors (int x) (int y)\<rparr>"
  using startup_inv [of m] assms by (simp add: startup_fold init_inv_def)

lemma startup_wired: "wired (startup m)"
  by (simp add: wired_def startup_world)

lemma startup_states:
  assumes "x < WIDTH" "y < HEIGHT"
  shows "cell_states (startup m) x y =
           (sram m SAVED = CHR_s \<and> sram m (SAVED_STATES + (x * HEIGHT + y)) = CHR_L)"
proof -
  let ?ps = "List.product [0..<WIDTH] [0..<HEIGHT]"
  let ?r = "fold (\<lambda>(x, y). init_cell (sram m SAVED = CHR_s) x y) ?ps (m, SAVED_STATES)"
  have "\<forall>k<length ?ps. cell_states (fst ?r) (fst (?ps ! k)) (snd (?ps ! k))
         = (sram m SAVED = CHR_s \<and> sram m (SAVED_STATES + k) = CHR_L)"
    using startup_inv [of m] unfolding init_inv_def by blast
  then have "cell_states (fst ?r) (fst (?ps ! (x * HEIGHT + y))) (snd (?ps ! (x * HEIGHT + y)))
         = (sram m SAVED = CHR_s \<and> sram m (SAVED_STATES + (x * HEIGHT + y)) = CHR_L)"
    using nth_cells(1) [OF assms] by blast
  then show ?thesis
    by (simp add: startup_fold nth_cells(2) [OF assms])
qed

lemma startup_frame:
  "sram (startup m) = sram m"
  "running (startup m) = False"
  "joypadPrev (startup m) = 0"
  "joypadCurr (startup m) = 0"
  "cursor (startup m) = \<lparr>sprite = 0, cur_x = 9, cur_y = 8\<rparr>"
  using startup_inv [of m]
  by (simp_all add: startup_fold init_inv_def move_cursor_def WIDTH_def HEIGHT_def)

subsection \<open>The torus\<close>

lemma shift_mod_inj:
  fixes a d d' n :: int
  assumes "d \<in> {-1, 0, 1}" "d' \<in> {-1, 0, 1}" "3 \<le> n" "(a + d) mod n = (a + d') mod n"
  shows "d = d'"
proof -
  have "n dvd (a + d) - (a + d')"
    using assms(4) by (simp add: mod_eq_dvd_iff)
  then have dv: "n dvd d - d'" by simp
  have "\<bar>d - d'\<bar> < n" using assms(1,2,3) by auto
  then have "d - d' = 0"
    using dv dvd_imp_le_int [of "d - d'" n] assms(3) by auto
  then show ?thesis by simp
qed

lemma spec_neighbor_inj:
  assumes "d \<in> set spec_offsets" "d' \<in> set spec_offsets"
    and "spec_neighbor x y d = spec_neighbor x y d'"
  shows "d = d'"
proof -
  have r: "fst d \<in> {-1, 0, 1}" "snd d \<in> {-1, 0, 1}" "fst d' \<in> {-1, 0, 1}" "snd d' \<in> {-1, 0, 1}"
    using assms(1,2) by (auto simp: spec_offsets_def)
  have "(int x + fst d) mod 20 = (int x + fst d') mod 20"
    and "(int y + snd d) mod 18 = (int y + snd d') mod 18"
    using assms(3) by (simp_all add: spec_neighbor_def WIDTH_def HEIGHT_def nat_eq_iff)
  then have "fst d = fst d'" "snd d = snd d'"
    using shift_mod_inj [OF r(1) r(3), of 20 "int x"] shift_mod_inj [OF r(2) r(4), of 18 "int y"]
    by simp_all
  then show ?thesis by (simp add: prod_eq_iff)
qed

lemma distinct_spec_neighbors: "distinct (map (spec_neighbor x y) spec_offsets)"
proof -
  have "distinct spec_offsets" by (simp add: spec_offsets_def)
  moreover have "inj_on (spec_neighbor x y) (set spec_offsets)"
    by (rule inj_onI) (rule spec_neighbor_inj)
  ultimately show ?thesis by (simp add: distinct_map)
qed

lemma spec_neighbor_not_self:
  assumes "x < WIDTH" "y < HEIGHT" "d \<in> set spec_offsets"
  shows "spec_neighbor x y d \<noteq> (x, y)"
proof
  assume e: "spec_neighbor x y d = (x, y)"
  have r: "fst d \<in> {-1, 0, 1}" "snd d \<in> {-1, 0, 1}"
    using assms(3) by (auto simp: spec_offsets_def)
  have "(int x + fst d) mod 20 = (int x + 0) mod 20"
    and "(int y + snd d) mod 18 = (int y + 0) mod 18"
    using e assms(1,2) by (simp_all add: spec_neighbor_def WIDTH_def HEIGHT_def nat_eq_iff)
  then have "fst d = 0" "snd d = 0"
    using shift_mod_inj [OF r(1), of 0 20 "int x"] shift_mod_inj [OF r(2), of 0 18 "int y"]
    by simp_all
  then have "d = (0, 0)" by (simp add: prod_eq_iff)
  then show False using assms(3) by (simp add: spec_offsets_def)
qed

lemma shift_back:
  fixes a d n :: int
  assumes "0 \<le> a" "a < n"
  shows "((a + d) mod n - d) mod n = a"
proof -
  have "((a + d) mod n - d) mod n = ((a + d) - d) mod n"
    by (rule mod_diff_left_eq)
  also have "\<dots> = a" using assms by simp
  finally show ?thesis .
qed

lemma spec_neighbor_back:
  assumes "x < WIDTH" "y < HEIGHT"
  shows "spec_neighbor (fst (spec_neighbor x y d)) (snd (spec_neighbor x y d)) (- fst d, - snd d)
           = (x, y)"
proof -
  have a: "((int x + fst d) mod 20 - fst d) mod 20 = int x"
    using assms(1) by (intro shift_back) (simp_all add: WIDTH_def)
  have b: "((int y + snd d) mod 18 - snd d) mod 18 = int y"
    using assms(2) by (intro shift_back) (simp_all add: HEIGHT_def)
  have "spec_neighbor (fst (spec_neighbor x y d)) (snd (spec_neighbor x y d)) (- fst d, - snd d)
      = (nat (((int x + fst d) mod 20 - fst d) mod 20),
         nat (((int y + snd d) mod 18 - snd d) mod 18))"
    by (simp add: spec_neighbor_def WIDTH_def HEIGHT_def)
  then show ?thesis
    by (simp only: a b nat_int)
qed

lemma spec_offsets_neg:
  assumes "d \<in> set spec_offsets"
  shows "(- fst d, - snd d) \<in> set spec_offsets"
proof -
  have "d = (-1, -1) \<or> d = (-1, 0) \<or> d = (-1, 1) \<or> d = (0, -1) \<or> d = (0, 1)
      \<or> d = (1, -1) \<or> d = (1, 0) \<or> d = (1, 1)"
    using assms by (simp add: spec_offsets_def)
  then show ?thesis
    by (elim disjE) (simp_all add: spec_offsets_def)
qed

lemma wired_world: "world m = world (startup m0) \<Longrightarrow> wired m"
  using startup_wired [of m0] by (simp add: wired_def)

lemma spec_live_neighbors_cong:
  assumes "\<forall>i<WIDTH. \<forall>j<HEIGHT. cs' i j = cs i j"
  shows "spec_live_neighbors cs' x y = spec_live_neighbors cs x y"
proof -
  have "cs' (fst (spec_neighbor x y d)) (snd (spec_neighbor x y d))
      = cs (fst (spec_neighbor x y d)) (snd (spec_neighbor x y d))" for d
    using assms spec_neighbor_in_range by blast
  then show ?thesis by (simp add: spec_live_neighbors_def)
qed

subsection \<open>Saving\<close>

lemma save_cell_eq:
  "save_cell x y (m, s) =
     (m\<lparr>sram := (sram m)(s := (if cell_states m x y then CHR_L else CHR_D))\<rparr>, s + 1)"
  by (simp add: save_cell_def)

lemma save_pass:
  "save_inv ps m s (fold (\<lambda>(x, y). save_cell x y) ps (m, s))"
proof (induction ps rule: rev_induct)
  case Nil
  then show ?case by (simp add: save_inv_def)
next
  case (snoc p ps)
  obtain x y where p: "p = (x, y)" by (cases p)
  obtain m' s' where r: "fold (\<lambda>(x, y). save_cell x y) ps (m, s) = (m', s')"
    by (cases "fold (\<lambda>(x, y). save_cell x y) ps (m, s)")
  have ih: "save_inv ps m s (m', s')" using snoc r by simp
  have step: "fold (\<lambda>(x, y). save_cell x y) (ps @ [p]) (m, s) = save_cell x y (m', s')"
    by (simp add: r p)
  show ?case
    using ih unfolding step save_cell_eq save_inv_def
    by (auto simp: p nth_append)
qed

lemma save_states_fold:
  "save_states m =
     fst (fold (\<lambda>(x, y). save_cell x y) (List.product [0..<WIDTH] [0..<HEIGHT])
            (m\<lparr>sram := (sram m)(SAVED := CHR_s)\<rparr>, SAVED_STATES))"
  by (simp add: save_states_def Let_def fold_product split: prod.split)

lemma save_states_inv:
  "save_inv (List.product [0..<WIDTH] [0..<HEIGHT])
     (m\<lparr>sram := (sram m)(SAVED := CHR_s)\<rparr>) SAVED_STATES
     (fold (\<lambda>(x, y). save_cell x y) (List.product [0..<WIDTH] [0..<HEIGHT])
            (m\<lparr>sram := (sram m)(SAVED := CHR_s)\<rparr>, SAVED_STATES))"
  by (rule save_pass)

lemma save_states_frame:
  "world (save_states m) = world m"
  "neighbors_buf (save_states m) = neighbors_buf m"
  "cell_states (save_states m) = cell_states m"
  "cursor (save_states m) = cursor m"
  "running (save_states m) = running m"
  "joypadPrev (save_states m) = joypadPrev m"
  "joypadCurr (save_states m) = joypadCurr m"
  using save_states_inv [of m] by (simp_all add: save_states_fold save_inv_def)

lemma save_states_marker: "sram (save_states m) SAVED = CHR_s"
  using save_states_inv [of m]
  by (simp add: save_states_fold save_inv_def SAVED_def SAVED_STATES_def)

lemma save_states_byte:
  assumes "x < WIDTH" "y < HEIGHT"
  shows "sram (save_states m) (SAVED_STATES + (x * HEIGHT + y))
           = (if cell_states m x y then CHR_L else CHR_D)"
  using save_states_inv [of m] nth_cells [OF assms]
  by (simp add: save_states_fold save_inv_def)

subsection \<open>The main loop\<close>

lemma keeps_refl: "keeps m m"
  by (simp add: keeps_def)

lemma keeps_trans: "keeps m m' \<Longrightarrow> keeps m' m'' \<Longrightarrow> keeps m m''"
  by (simp add: keeps_def)

lemma keeps_newly_pressed: "keeps m m' \<Longrightarrow> newly_pressed bits m' b = newly_pressed bits m b"
  by (simp add: keeps_def newly_pressed_def)

lemma clear_states_frame:
  "world (clear_states m) = world m"
  "cursor (clear_states m) = cursor m"
  "running (clear_states m) = running m"
  "joypadPrev (clear_states m) = joypadPrev m"
  "joypadCurr (clear_states m) = joypadCurr m"
  "sram (clear_states m) = sram m"
  unfolding clear_states_def fold_product
  by (rule fold_frame, simp add: clear_cell_def split: prod.split)+

lemma keeps_blocks:
  "keeps m (clear_states m)"
  "keeps m (save_states m)"
  "keeps m (toggle_cell m)"
  "keeps m (m\<lparr>cursor := c\<rparr>)"
  by (simp_all add: keeps_def clear_states_frame save_states_frame toggle_cell_def Let_def
      write_state_def)

lemma on_press_keeps:
  assumes blk: "\<And>m. keeps m (block m)" and k: "keeps m (fst r)"
  shows "keeps m (fst (on_press bits b block r))"
    and "snd (on_press bits b block r)
           = snd r @ (if newly_pressed bits m b then [Action b] else [])"
proof -
  obtain m1 evs1 where r: "r = (m1, evs1)" by (cases r)
  have k1: "keeps m m1" using k r by simp
  show "keeps m (fst (on_press bits b block r))"
    using keeps_trans [OF k1 blk [of m1]] k1 by (simp add: on_press_def r)
  show "snd (on_press bits b block r)
           = snd r @ (if newly_pressed bits m b then [Action b] else [])"
    by (simp add: on_press_def r keeps_newly_pressed [OF k1])
qed

lemma paused_blocks:
  fixes m :: machine and bits :: "button \<Rightarrow> uint8_t"
  defines "r1 \<equiv> on_press bits J_SELECT clear_states (m, [])"
  defines "r2 \<equiv> on_press bits J_START save_states r1"
  defines "r3 \<equiv> on_press bits J_A toggle_cell r2"
  defines "r4 \<equiv> on_press bits J_UP (\<lambda>m. m\<lparr>cursor := move_cursor (cursor m) 0 (- 1)\<rparr>) r3"
  defines "r5 \<equiv> on_press bits J_DOWN (\<lambda>m. m\<lparr>cursor := move_cursor (cursor m) 0 1\<rparr>) r4"
  defines "r6 \<equiv> on_press bits J_LEFT (\<lambda>m. m\<lparr>cursor := move_cursor (cursor m) (- 1) 0\<rparr>) r5"
  defines "r7 \<equiv> on_press bits J_RIGHT (\<lambda>m. m\<lparr>cursor := move_cursor (cursor m) 1 0\<rparr>) r6"
  shows "keeps m (fst r7) \<and>
         snd r7 = map Action (filter (newly_pressed bits m)
                    [J_SELECT, J_START, J_A, J_UP, J_DOWN, J_LEFT, J_RIGHT])"
proof -
  have k0: "keeps m (fst (m, [] :: event list))" by (simp add: keeps_refl)
  note s1 = on_press_keeps [of clear_states m "(m, [])" bits J_SELECT, OF keeps_blocks(1) k0,
      folded r1_def]
  note s2 = on_press_keeps [of save_states m r1 bits J_START, OF keeps_blocks(2) s1(1),
      folded r2_def]
  note s3 = on_press_keeps [of toggle_cell m r2 bits J_A, OF keeps_blocks(3) s2(1),
      folded r3_def]
  note s4 = on_press_keeps [of "\<lambda>m. m\<lparr>cursor := move_cursor (cursor m) 0 (- 1)\<rparr>" m r3 bits J_UP,
      OF keeps_blocks(4) s3(1), folded r4_def]
  note s5 = on_press_keeps [of "\<lambda>m. m\<lparr>cursor := move_cursor (cursor m) 0 1\<rparr>" m r4 bits J_DOWN,
      OF keeps_blocks(4) s4(1), folded r5_def]
  note s6 = on_press_keeps [of "\<lambda>m. m\<lparr>cursor := move_cursor (cursor m) (- 1) 0\<rparr>" m r5 bits J_LEFT,
      OF keeps_blocks(4) s5(1), folded r6_def]
  note s7 = on_press_keeps [of "\<lambda>m. m\<lparr>cursor := move_cursor (cursor m) 1 0\<rparr>" m r6 bits J_RIGHT,
      OF keeps_blocks(4) s6(1), folded r7_def]
  have "snd r7 = map Action (filter (newly_pressed bits m)
                    [J_SELECT, J_START, J_A, J_UP, J_DOWN, J_LEFT, J_RIGHT])"
    unfolding s7(2) s6(2) s5(2) s4(2) s3(2) s2(2) s1(2) by simp
  then show ?thesis using s7(1) by simp
qed

lemma newly_pressed_sample:
  "newly_pressed bits (m\<lparr>joypadPrev := joypadCurr m, joypadCurr := pad\<rparr>) b
     = (held bits pad b \<and> \<not> held bits (joypadCurr m) b)"
  by (simp add: newly_pressed_def held_def)

lemma tick_events_cases:
  "tick_events bits m pad =
     (if held bits pad J_B \<and> \<not> held bits (joypadCurr m) J_B then [Action J_B]
      else if running m then [GenerationStep]
      else map Action (filter (\<lambda>b. held bits pad b \<and> \<not> held bits (joypadCurr m) b)
                [J_SELECT, J_START, J_A, J_UP, J_DOWN, J_LEFT, J_RIGHT]))"
  by (simp add: tick_events_def Let_def)

lemma tick_result:
  "snd (tick bits m pad) = tick_events bits m pad"
  "joypadCurr (fst (tick bits m pad)) = pad"
  "running (fst (tick bits m pad))
     = (running m \<noteq> (held bits pad J_B \<and> \<not> held bits (joypadCurr m) J_B))"
  "world (fst (tick bits m pad)) = world m"
proof -
  let ?m = "m\<lparr>joypadPrev := joypadCurr m, joypadCurr := pad\<rparr>"
  let ?e = "held bits pad J_B \<and> \<not> held bits (joypadCurr m) J_B"
  have np: "newly_pressed bits ?m = (\<lambda>b. held bits pad b \<and> \<not> held bits (joypadCurr m) b)"
    by (rule ext) (rule newly_pressed_sample)
  have all: "snd (tick bits m pad) = tick_events bits m pad \<and>
      joypadCurr (fst (tick bits m pad)) = pad \<and>
      running (fst (tick bits m pad)) = (running m \<noteq> ?e) \<and>
      world (fst (tick bits m pad)) = world m"
  proof (cases ?e)
    case True
    then have "tick bits m pad = (?m\<lparr>running := \<not> running m\<rparr>, [Action J_B])"
      by (simp add: tick_def Let_def newly_pressed_sample)
    then show ?thesis using True by (simp add: tick_events_cases)
  next
    case False
    show ?thesis
    proof (cases "running m")
      case True
      moreover have "\<not> newly_pressed bits ?m J_B"
        using False by (simp add: newly_pressed_sample)
      ultimately have "tick bits m pad = (generation ?m, [GenerationStep])"
        by (simp add: tick_def Let_def)
      then show ?thesis
        using True False by (simp add: tick_events_cases generation_frame)
    next
      case r: False
      have nb: "\<not> newly_pressed bits ?m J_B"
        using False by (simp add: newly_pressed_sample)
      have t: "tick bits m pad =
          on_press bits J_RIGHT (\<lambda>m. m\<lparr>cursor := move_cursor (cursor m) 1 0\<rparr>)
           (on_press bits J_LEFT (\<lambda>m. m\<lparr>cursor := move_cursor (cursor m) (- 1) 0\<rparr>)
           (on_press bits J_DOWN (\<lambda>m. m\<lparr>cursor := move_cursor (cursor m) 0 1\<rparr>)
           (on_press bits J_UP (\<lambda>m. m\<lparr>cursor := move_cursor (cursor m) 0 (- 1)\<rparr>)
           (on_press bits J_A toggle_cell
           (on_press bits J_START save_states
           (on_press bits J_SELECT clear_states (?m, [])))))))"
        using r nb by (simp add: tick_def Let_def)
      have "keeps ?m (fst (tick bits m pad)) \<and>
         snd (tick bits m pad) = map Action (filter (newly_pressed bits ?m)
                [J_SELECT, J_START, J_A, J_UP, J_DOWN, J_LEFT, J_RIGHT])"
        unfolding t by (rule paused_blocks)
      then show ?thesis
        using r False unfolding np
        by (auto simp add: tick_events_cases keeps_def simp del: filter.simps)
    qed
  qed
  show "snd (tick bits m pad) = tick_events bits m pad"
    and "joypadCurr (fst (tick bits m pad)) = pad"
    and "running (fst (tick bits m pad)) = (running m \<noteq> ?e)"
    and "world (fst (tick bits m pad)) = world m"
    using all by simp_all
qed

lemma run_Cons:
  "run bits m (pad # pads) =
     (fst (run bits (fst (tick bits m pad)) pads),
      snd (tick bits m pad) # snd (run bits (fst (tick bits m pad)) pads))"
  by (simp add: split_beta)




lemma run_world: "world (fst (run bits m pads)) = world m"
proof (induction pads arbitrary: m)
  case Nil
  then show ?case by simp
next
  case (Cons pad pads)
  show ?case
    unfolding run_Cons using Cons [of "fst (tick bits m pad)"] by (simp add: tick_result(4))
qed






text \<open>The facts that run the main loop on concrete input.\<close>

lemmas eval_run = run_events_def tick_def Let_def newly_pressed_def on_press_def
  startup_frame generation_frame toggle_cell_def write_state_def read_state_def held_def
  startup_world WIDTH_def HEIGHT_def

text \<open>
  From power-on, nine presses of LEFT and nine of UP take the cursor to \<open>(0, 255)\<close>,
  above the grid; A pressed there toggles the cell \<open>(14, 3)\<close>, the element
  \<open>0 * 18 + 255 = 14 * 18 + 3\<close> of the array.
\<close>

lemma toggle_above_grid:
  "cursor (fst (run gbdk_bits (startup cold)
      [0x02, 0, 0x02, 0, 0x02, 0, 0x02, 0, 0x02, 0, 0x02, 0, 0x02, 0, 0x02, 0, 0x02, 0,
       0x04, 0, 0x04, 0, 0x04, 0, 0x04, 0, 0x04, 0, 0x04, 0, 0x04, 0, 0x04, 0, 0x04, 0,
       0x10])) = \<lparr>sprite = 0, cur_x = 0, cur_y = 255\<rparr>
   \<and> cell_states (fst (run gbdk_bits (startup cold)
      [0x02, 0, 0x02, 0, 0x02, 0, 0x02, 0, 0x02, 0, 0x02, 0, 0x02, 0, 0x02, 0, 0x02, 0,
       0x04, 0, 0x04, 0, 0x04, 0, 0x04, 0, 0x04, 0, 0x04, 0, 0x04, 0, 0x04, 0, 0x04, 0,
       0x10])) 14 3
   \<and> \<not> cell_states (fst (run gbdk_bits (startup cold)
      [0x02, 0, 0x02, 0, 0x02, 0, 0x02, 0, 0x02, 0, 0x02, 0, 0x02, 0, 0x02, 0, 0x02, 0,
       0x04, 0, 0x04, 0, 0x04, 0, 0x04, 0, 0x04, 0, 0x04, 0, 0x04, 0, 0x04, 0, 0x04, 0])) 14 3"
  by (simp add: eval_run move_cursor_def startup_states cold_def CHR_s_def CHR_L_def SAVED_def
      unsigned_minus_1_eq_mask mask_eq_exp_minus_1 upd2_apply)

section \<open>The claims\<close>

text \<open>
  Claim C1. For every cell \<open>(x, y)\<close> of the 20 by 18 grid of a machine whose topology is
  the one startup built, one generation pass maps the cell as follows, where \<open>n\<close> is
  the number of its eight toroidal neighbours that are live before the pass: a live
  cell with \<open>n\<close> neither 2 nor 3 becomes dead, a dead cell with \<open>n = 3\<close> becomes live, and
  in every other case the state is unchanged.
\<close>

theorem generation_rule:
  assumes "world m = world (startup m0)" and "x < WIDTH" and "y < HEIGHT"
  shows "let n = spec_live_neighbors (cell_states m) x y;
             live = cell_states m x y;
             live' = cell_states (generation m) x y
         in (live \<and> n \<noteq> 2 \<and> n \<noteq> 3 \<longrightarrow> \<not> live') \<and>
            (\<not> live \<and> n = 3 \<longrightarrow> live') \<and>
            (\<not> (live \<and> n \<noteq> 2 \<and> n \<noteq> 3) \<and> \<not> (\<not> live \<and> n = 3) \<longrightarrow> live' = live)"
  using generation_states [OF wired_world [OF assms(1)] assms(2,3)]
  by (simp add: Let_def spec_rule_def)

theorem generation_rule_witness:
  "world ((startup cold)\<lparr>cell_states := glider\<rparr>) = world (startup cold) \<and>
   glider 1 0 \<and> spec_live_neighbors glider 1 0 = 1 \<and>
   \<not> cell_states (generation ((startup cold)\<lparr>cell_states := glider\<rparr>)) 1 0 \<and>
   \<not> glider 0 1 \<and> spec_live_neighbors glider 0 1 = 3 \<and>
   cell_states (generation ((startup cold)\<lparr>cell_states := glider\<rparr>)) 0 1 \<and>
   glider 2 1 \<and> spec_live_neighbors glider 2 1 = 3 \<and>
   cell_states (generation ((startup cold)\<lparr>cell_states := glider\<rparr>)) 2 1 \<and>
   \<not> glider 1 1 \<and> spec_live_neighbors glider 1 1 = 5 \<and>
   \<not> cell_states (generation ((startup cold)\<lparr>cell_states := glider\<rparr>)) 1 1"
  using generation_rule [of "(startup cold)\<lparr>cell_states := glider\<rparr>" cold 1 0]
    generation_rule [of "(startup cold)\<lparr>cell_states := glider\<rparr>" cold 0 1]
    generation_rule [of "(startup cold)\<lparr>cell_states := glider\<rparr>" cold 2 1]
    generation_rule [of "(startup cold)\<lparr>cell_states := glider\<rparr>" cold 1 1]
  by (simp add: Let_def spec_live_neighbors_def spec_offsets_def spec_neighbor_def glider_def
      WIDTH_def HEIGHT_def)

text \<open>
  Claim C3. After startup every cell \<open>(x, y)\<close> of the grid has exactly eight neighbour
  references: the cells at \<open>((x + dx) mod 20, (y + dy) mod 18)\<close> for the eight offsets
  \<open>(dx, dy)\<close> other than \<open>(0, 0)\<close>, each exactly once (the list is the image of the list
  of offsets and has no duplicate). No cell is its own neighbour, every neighbour lies
  in the grid, and the relation is symmetric: a cell is a neighbour of each of its
  neighbours.
\<close>

theorem startup_topology:
  assumes "x < WIDTH" and "y < HEIGHT"
  shows "neighbors (world (startup m) x y) = map (spec_neighbor x y) spec_offsets
       \<and> length (neighbors (world (startup m) x y)) = 8
       \<and> distinct (neighbors (world (startup m) x y))
       \<and> (x, y) \<notin> set (neighbors (world (startup m) x y))
       \<and> (\<forall>p \<in> set (neighbors (world (startup m) x y)).
            fst p < WIDTH \<and> snd p < HEIGHT \<and>
            (x, y) \<in> set (neighbors (world (startup m) (fst p) (snd p))))"
proof -
  have ns: "neighbors (world (startup m) a b) = map (spec_neighbor a b) spec_offsets"
    if "a < WIDTH" "b < HEIGHT" for a b
    using that by (simp add: startup_world wire_neighbors_spec)
  have sym: "fst p < WIDTH \<and> snd p < HEIGHT \<and>
            (x, y) \<in> set (neighbors (world (startup m) (fst p) (snd p)))"
    if "p \<in> set (map (spec_neighbor x y) spec_offsets)" for p
  proof -
    from that have "p \<in> spec_neighbor x y ` set spec_offsets" by simp
    then obtain d where d: "d \<in> set spec_offsets" and p: "p = spec_neighbor x y d"
      by blast
    have r: "fst p < WIDTH" "snd p < HEIGHT"
      by (simp_all add: p spec_neighbor_in_range)
    have "spec_neighbor (fst p) (snd p) (- fst d, - snd d) = (x, y)"
      unfolding p by (rule spec_neighbor_back [OF assms])
    then have "(x, y) \<in> spec_neighbor (fst p) (snd p) ` set spec_offsets"
      using spec_offsets_neg [OF d] by (metis imageI)
    then show ?thesis using r by (simp add: ns)
  qed
  have self: "(x, y) \<notin> set (map (spec_neighbor x y) spec_offsets)"
  proof
    assume "(x, y) \<in> set (map (spec_neighbor x y) spec_offsets)"
    then have "(x, y) \<in> spec_neighbor x y ` set spec_offsets" by simp
    then obtain d where "d \<in> set spec_offsets" "spec_neighbor x y d = (x, y)"
      by (metis imageE)
    then show False using spec_neighbor_not_self [OF assms] by blast
  qed
  have len: "length (map (spec_neighbor x y) spec_offsets) = 8"
    by (simp add: spec_offsets_def)
  show ?thesis
    unfolding ns [OF assms]
  proof (intro conjI ballI)
    show "map (spec_neighbor x y) spec_offsets = map (spec_neighbor x y) spec_offsets" ..
    show "length (map (spec_neighbor x y) spec_offsets) = 8" by (rule len)
    show "distinct (map (spec_neighbor x y) spec_offsets)" by (rule distinct_spec_neighbors)
    show "(x, y) \<notin> set (map (spec_neighbor x y) spec_offsets)" by (rule self)
  next
    fix p assume p: "p \<in> set (map (spec_neighbor x y) spec_offsets)"
    show "fst p < WIDTH" using sym [OF p] by (rule conjunct1)
    show "snd p < HEIGHT" using sym [OF p] by simp
    show "(x, y) \<in> set (neighbors (world (startup m) (fst p) (snd p)))"
      using sym [OF p] by simp
  qed
qed

theorem startup_topology_witness:
  "0 < WIDTH \<and> 0 < HEIGHT \<and>
   neighbors (world (startup cold) 0 0) =
     [(19, 17), (19, 0), (19, 1), (0, 17), (0, 1), (1, 17), (1, 0), (1, 1)] \<and>
   19 < WIDTH \<and> 17 < HEIGHT \<and>
   neighbors (world (startup cold) 19 17) =
     [(18, 16), (18, 17), (18, 0), (19, 16), (19, 0), (0, 16), (0, 17), (0, 0)]"
  using startup_topology [of 0 0 cold] startup_topology [of 19 17 cold]
  by (simp add: WIDTH_def HEIGHT_def spec_offsets_def spec_neighbor_def)

text \<open>
  Claim C8. When the marker byte is \<^verbatim>\<open>'s'\<close>, startup loads the cell \<open>(x, y)\<close> as live if
  and only if its byte, at \<open>SAVED_STATES + x * HEIGHT + y\<close>, is exactly \<^verbatim>\<open>'L'\<close>; every other
  byte value loads as dead. \<open>startup\<close> is a total function of the machine: no content
  of the cartridge RAM makes it fail.
\<close>

theorem load_live_iff_L:
  assumes "sram m SAVED = CHR_s" and "x < WIDTH" and "y < HEIGHT"
  shows "cell_states (startup m) x y = (sram m (SAVED_STATES + (x * HEIGHT + y)) = CHR_L)"
  using assms by (simp add: startup_states)

theorem load_live_iff_L_witness:
  "sram (cold\<lparr>sram := foreign_save\<rparr>) SAVED = CHR_s \<and> 1 < WIDTH \<and> 3 < HEIGHT \<and> 4 < HEIGHT \<and>
   cell_states (startup (cold\<lparr>sram := foreign_save\<rparr>)) 1 3 \<and>
   \<not> cell_states (startup (cold\<lparr>sram := foreign_save\<rparr>)) 1 4"
  using load_live_iff_L [of "cold\<lparr>sram := foreign_save\<rparr>" 1 3]
    load_live_iff_L [of "cold\<lparr>sram := foreign_save\<rparr>" 1 4]
  by (simp add: foreign_save_def SAVED_def SAVED_STATES_def WIDTH_def HEIGHT_def
      CHR_s_def CHR_L_def)

text \<open>
  Claim C9. When the marker byte is anything other than \<^verbatim>\<open>'s'\<close>, every cell of the grid
  is dead after startup, whatever the other bytes of the cartridge RAM are.
\<close>

theorem no_marker_all_dead:
  assumes "sram m SAVED \<noteq> CHR_s" and "x < WIDTH" and "y < HEIGHT"
  shows "\<not> cell_states (startup m) x y"
  using assms by (simp add: startup_states)

theorem no_marker_all_dead_witness:
  "sram (cold\<lparr>sram := unmarked_save\<rparr>) SAVED \<noteq> CHR_s \<and> 5 < WIDTH \<and> 7 < HEIGHT \<and>
   sram (cold\<lparr>sram := unmarked_save\<rparr>) (SAVED_STATES + (5 * HEIGHT + 7)) = CHR_L \<and>
   \<not> cell_states (startup (cold\<lparr>sram := unmarked_save\<rparr>)) 5 7"
  using no_marker_all_dead [of "cold\<lparr>sram := unmarked_save\<rparr>" 5 7]
  by (simp add: unmarked_save_def SAVED_def SAVED_STATES_def WIDTH_def HEIGHT_def
      CHR_s_def CHR_L_def)

text \<open>
  Claim C10. A generation pass leaves the cursor, the mode flag and the cartridge RAM
  as they were, for every starting machine (and the joypad samples and the topology
  as well): it writes only the cell states and the buffer of neighbour counts.
\<close>

theorem generation_frame_effect:
  "cursor (generation m) = cursor m \<and>
   running (generation m) = running m \<and>
   sram (generation m) = sram m \<and>
   joypadPrev (generation m) = joypadPrev m \<and>
   joypadCurr (generation m) = joypadCurr m \<and>
   world (generation m) = world m"
  by (simp add: generation_frame)

text \<open>
  Claim C2. The generation pass is computed in two phases: after it the buffer holds,
  for every cell, the count of the live neighbours in the generation before the pass,
  and the new states are the simultaneous update of every cell from that one
  generation. The outcome on the grid is a function of the topology and of the states
  on the grid alone: a machine \<open>m'\<close> with the same topology and the same states on the
  grid, whatever its buffer and its other variables hold, gets the same next states.
\<close>

theorem generation_two_phase:
  assumes "world m = world (startup m0)" and "x < WIDTH" and "y < HEIGHT"
  shows "neighbors_buf (generation m) x y = of_nat (spec_live_neighbors (cell_states m) x y)
       \<and> cell_states (generation m) x y = spec_next_generation (cell_states m) x y
       \<and> (world m' = world m \<and> (\<forall>i<WIDTH. \<forall>j<HEIGHT. cell_states m' i j = cell_states m i j)
            \<longrightarrow> cell_states (generation m') x y = cell_states (generation m) x y)"
proof (intro conjI impI)
  have w: "wired m" by (rule wired_world [OF assms(1)])
  show "neighbors_buf (generation m) x y = of_nat (spec_live_neighbors (cell_states m) x y)"
    using assms(2,3) by (simp add: generation_buf cell_neighbors_wired [OF w])
  show g: "cell_states (generation m) x y = spec_next_generation (cell_states m) x y"
    by (simp add: generation_states [OF w assms(2,3)] spec_next_generation_def)
  assume a: "world m' = world m \<and> (\<forall>i<WIDTH. \<forall>j<HEIGHT. cell_states m' i j = cell_states m i j)"
  then have w': "wired m'" using w by (simp add: wired_def)
  have same: "\<forall>i<WIDTH. \<forall>j<HEIGHT. cell_states m' i j = cell_states m i j"
    using a by simp
  have "cell_states (generation m') x y = spec_next_generation (cell_states m') x y"
    by (simp add: generation_states [OF w' assms(2,3)] spec_next_generation_def)
  also have "\<dots> = spec_next_generation (cell_states m) x y"
    using same assms(2,3)
    by (simp add: spec_next_generation_def spec_live_neighbors_cong [OF same])
  finally show "cell_states (generation m') x y = cell_states (generation m) x y"
    using g by simp
qed

theorem generation_two_phase_witness:
  "world ((startup cold)\<lparr>cell_states := glider\<rparr>) = world (startup cold) \<and>
   neighbors_buf (generation ((startup cold)\<lparr>cell_states := glider\<rparr>)) 1 1 = 5 \<and>
   neighbors_buf (generation ((startup cold)\<lparr>cell_states := glider\<rparr>)) 0 1 = 3 \<and>
   cell_states (generation ((startup cold)\<lparr>cell_states := glider\<rparr>)) 0 1 \<and>
   cell_states (generation ((startup cold)\<lparr>cell_states := glider, neighbors_buf := \<lambda>i j. 3\<rparr>)) 1 1
     = cell_states (generation ((startup cold)\<lparr>cell_states := glider\<rparr>)) 1 1"
  using generation_two_phase [of "(startup cold)\<lparr>cell_states := glider\<rparr>" cold 1 1
      "(startup cold)\<lparr>cell_states := glider, neighbors_buf := \<lambda>i j. 3\<rparr>"]
    generation_two_phase [of "(startup cold)\<lparr>cell_states := glider\<rparr>" cold 0 1
      "(startup cold)\<lparr>cell_states := glider\<rparr>"]
  by (simp add: Let_def spec_live_neighbors_def spec_offsets_def spec_neighbor_def glider_def
      spec_next_generation_def spec_rule_def WIDTH_def HEIGHT_def)

text \<open>
  Claim C4 says that \<open>move_cursor\<close> wraps every move modulo the dimension, so that
  moving left from \<open>x = 0\<close> gives 19 and moving up from \<open>y = 0\<close> gives 17. The code does
  so to the right and downwards, but to the left and upwards the test
  \<^verbatim>\<open>cursor->x + dx < WIDTH\<close> is made on \<^verbatim>\<open>int\<close>, where \<open>0 + (-1) = -1\<close> is less than
  the dimension: the wrapping branch is never taken and the coordinate becomes 255.
  The last line reaches this from power-on, with ten presses of LEFT.
\<close>

theorem move_cursor_left_of_zero:
  "move_cursor \<lparr>sprite = 0, cur_x = 0, cur_y = 0\<rparr> (- 1) 0 = \<lparr>sprite = 0, cur_x = 255, cur_y = 0\<rparr>
   \<and> move_cursor \<lparr>sprite = 0, cur_x = 0, cur_y = 0\<rparr> 0 (- 1) = \<lparr>sprite = 0, cur_x = 0, cur_y = 255\<rparr>
   \<and> move_cursor \<lparr>sprite = 0, cur_x = 19, cur_y = 17\<rparr> 1 0 = \<lparr>sprite = 0, cur_x = 0, cur_y = 17\<rparr>
   \<and> move_cursor \<lparr>sprite = 0, cur_x = 19, cur_y = 17\<rparr> 0 1 = \<lparr>sprite = 0, cur_x = 19, cur_y = 0\<rparr>
   \<and> cursor (fst (run gbdk_bits (startup cold)
          [0x02, 0, 0x02, 0, 0x02, 0, 0x02, 0, 0x02, 0, 0x02, 0, 0x02, 0, 0x02, 0, 0x02, 0, 0x02]))
       = \<lparr>sprite = 0, cur_x = 255, cur_y = 8\<rparr>"
  by (simp add: eval_run move_cursor_def)

text \<open>
  Claim C6. The block of START writes the marker \<^verbatim>\<open>'s'\<close> at \<open>SAVED\<close> and then one byte per
  cell, \<^verbatim>\<open>'L'\<close> for a live and \<^verbatim>\<open>'D'\<close> for a dead cell, the byte of \<open>(x, y)\<close> at
  \<open>SAVED_STATES + x * HEIGHT + y\<close>; a startup that finds these bytes in the cartridge RAM
  gives every cell of the grid the state it had when the save was made. This holds for
  every grid, so for the empty grid, the full grid and the glider.
\<close>

theorem save_load_roundtrip:
  assumes "sram m0 = sram (save_states m)" and "x < WIDTH" and "y < HEIGHT"
  shows "sram m0 SAVED = CHR_s
       \<and> sram m0 (SAVED_STATES + (x * HEIGHT + y)) = (if cell_states m x y then CHR_L else CHR_D)
       \<and> cell_states (startup m0) x y = cell_states m x y"
  using assms
  by (simp add: startup_states save_states_marker save_states_byte CHR_L_def CHR_D_def)

theorem save_load_roundtrip_witness:
  "sram (cold\<lparr>sram := sram (save_states (cold\<lparr>cell_states := glider\<rparr>))\<rparr>)
     = sram (save_states (cold\<lparr>cell_states := glider\<rparr>)) \<and>
   cell_states (startup (cold\<lparr>sram := sram (save_states (cold\<lparr>cell_states := glider\<rparr>))\<rparr>)) 1 0 \<and>
   cell_states (startup (cold\<lparr>sram := sram (save_states (cold\<lparr>cell_states := glider\<rparr>))\<rparr>)) 2 1 \<and>
   cell_states (startup (cold\<lparr>sram := sram (save_states (cold\<lparr>cell_states := glider\<rparr>))\<rparr>)) 0 2 \<and>
   cell_states (startup (cold\<lparr>sram := sram (save_states (cold\<lparr>cell_states := glider\<rparr>))\<rparr>)) 1 2 \<and>
   cell_states (startup (cold\<lparr>sram := sram (save_states (cold\<lparr>cell_states := glider\<rparr>))\<rparr>)) 2 2 \<and>
   \<not> cell_states (startup (cold\<lparr>sram := sram (save_states (cold\<lparr>cell_states := glider\<rparr>))\<rparr>)) 1 1 \<and>
   cell_states (startup (cold\<lparr>sram := sram (save_states (cold\<lparr>cell_states := all_live\<rparr>))\<rparr>)) 19 17 \<and>
   \<not> cell_states (startup (cold\<lparr>sram := sram (save_states (cold\<lparr>cell_states := all_dead\<rparr>))\<rparr>)) 19 17"
  using
    save_load_roundtrip [of "cold\<lparr>sram := sram (save_states (cold\<lparr>cell_states := glider\<rparr>))\<rparr>"
      "cold\<lparr>cell_states := glider\<rparr>" 1 0]
    save_load_roundtrip [of "cold\<lparr>sram := sram (save_states (cold\<lparr>cell_states := glider\<rparr>))\<rparr>"
      "cold\<lparr>cell_states := glider\<rparr>" 2 1]
    save_load_roundtrip [of "cold\<lparr>sram := sram (save_states (cold\<lparr>cell_states := glider\<rparr>))\<rparr>"
      "cold\<lparr>cell_states := glider\<rparr>" 0 2]
    save_load_roundtrip [of "cold\<lparr>sram := sram (save_states (cold\<lparr>cell_states := glider\<rparr>))\<rparr>"
      "cold\<lparr>cell_states := glider\<rparr>" 1 2]
    save_load_roundtrip [of "cold\<lparr>sram := sram (save_states (cold\<lparr>cell_states := glider\<rparr>))\<rparr>"
      "cold\<lparr>cell_states := glider\<rparr>" 2 2]
    save_load_roundtrip [of "cold\<lparr>sram := sram (save_states (cold\<lparr>cell_states := glider\<rparr>))\<rparr>"
      "cold\<lparr>cell_states := glider\<rparr>" 1 1]
    save_load_roundtrip [of "cold\<lparr>sram := sram (save_states (cold\<lparr>cell_states := all_live\<rparr>))\<rparr>"
      "cold\<lparr>cell_states := all_live\<rparr>" 19 17]
    save_load_roundtrip [of "cold\<lparr>sram := sram (save_states (cold\<lparr>cell_states := all_dead\<rparr>))\<rparr>"
      "cold\<lparr>cell_states := all_dead\<rparr>" 19 17]
  by (simp add: glider_def all_live_def all_dead_def WIDTH_def HEIGHT_def)






end
